theory Spec2Isabelle
  imports
    Main
    "HOL-Library.Word"
    "HOL-Library.Multiset"
    "HOL-Library.Product_Lexorder"
    "HOL-Library.List_Lexorder"
begin

section \<open>JavaScript strings\<close>

text \<open>
  A JavaScript string is a sequence of 16-bit code units. The classifier only ever
  looks at code units: \<^verbatim>\<open>trim\<close> removes white space and line terminators, the two
  regular expressions test ASCII digits and ASCII letters, \<^verbatim>\<open>length\<close> counts code
  units.
\<close>

type_synonym jschar = "16 word"
type_synonym jsstring = "jschar list"

text \<open>An ASCII literal of the source, as code units.\<close>

definition lit :: "string \<Rightarrow> jsstring" where
  "lit s = map (\<lambda>c. of_nat (of_char c)) s"

text \<open>
  \<^verbatim>\<open>String.prototype.trim\<close> strips WhiteSpace and LineTerminator code points from both
  ends: TAB, VT, FF, SP, NBSP, ZWNBSP, the space separators (category Zs), LF, CR, LS
  and PS. All of them are single code units.
\<close>

definition isWhiteSpace :: "jschar \<Rightarrow> bool" where
  "isWhiteSpace c \<longleftrightarrow>
     c \<in> {0x0009, 0x000A, 0x000B, 0x000C, 0x000D, 0x0020, 0x00A0, 0x1680,
          0x2028, 0x2029, 0x202F, 0x205F, 0x3000, 0xFEFF}
     \<or> (0x2000 \<le> c \<and> c \<le> 0x200A)"

definition trim :: "jsstring \<Rightarrow> jsstring" where
  "trim s = rev (dropWhile isWhiteSpace (rev (dropWhile isWhiteSpace s)))"

definition isDigit :: "jschar \<Rightarrow> bool" where
  "isDigit c \<longleftrightarrow> 0x30 \<le> c \<and> c \<le> 0x39"

definition isUpper :: "jschar \<Rightarrow> bool" where
  "isUpper c \<longleftrightarrow> 0x41 \<le> c \<and> c \<le> 0x5A"

definition isLower :: "jschar \<Rightarrow> bool" where
  "isLower c \<longleftrightarrow> 0x61 \<le> c \<and> c \<le> 0x7A"

text \<open>The test \<^verbatim>\<open>/^\d+$/.test(str)\<close>: one or more ASCII digits and nothing else.\<close>

definition matchesDigits :: "jsstring \<Rightarrow> bool" where
  "matchesDigits str \<longleftrightarrow> str \<noteq> [] \<and> list_all isDigit str"

text \<open>The test \<^verbatim>\<open>/^[a-zA-Z]$/.test(str)\<close>: exactly one ASCII letter.\<close>

definition matchesLetter :: "jsstring \<Rightarrow> bool" where
  "matchesLetter str \<longleftrightarrow> (case str of [c] \<Rightarrow> isLower c \<or> isUpper c | _ \<Rightarrow> False)"

text \<open>
  \<^verbatim>\<open>toUpperCase\<close> and \<^verbatim>\<open>toLowerCase\<close> on the ASCII range, which is all the comparator
  of the sort is applied to (the array it sorts is filled under \<^verbatim>\<open>/^[a-zA-Z]$/\<close>).
\<close>

definition toUpperCase :: "jsstring \<Rightarrow> jsstring" where
  "toUpperCase s = map (\<lambda>c. if isLower c then c - 0x20 else c) s"

definition toLowerCase :: "jsstring \<Rightarrow> jsstring" where
  "toLowerCase s = map (\<lambda>c. if isUpper c then c + 0x20 else c) s"

text \<open>
  \<^verbatim>\<open>a.localeCompare(b)\<close> compares by the collation of the default locale of the host,
  which the source does not choose. A collation gives every letter a sort key, and
  distinct letters distinct keys; \<^verbatim>\<open>localeCompare\<close> is negative, zero or positive as
  the keys compare. The model is exact on single ASCII letters.
\<close>

typedef collation = "{key :: jschar \<Rightarrow> nat \<times> nat. inj_on key {c. isLower c \<or> isUpper c}}"
  morphisms keyOf Abs_collation
proof
  show "(\<lambda>c. (unat c, 0)) \<in> {key :: jschar \<Rightarrow> nat \<times> nat. inj_on key {c. isLower c \<or> isUpper c}}"
    by (simp add: inj_on_def word_unat_eq_iff)
qed

setup_lifting type_definition_collation

definition localeCompare :: "collation \<Rightarrow> jsstring \<Rightarrow> jsstring \<Rightarrow> int" where
  "localeCompare loc a b =
     (if map (keyOf loc) a < map (keyOf loc) b then - 1
      else if map (keyOf loc) a = map (keyOf loc) b then 0 else 1)"

text \<open>
  The root collation, which an English locale uses: letters are compared
  alphabetically first and, for the same letter, lower case comes before upper case.
\<close>

lift_definition rootCollation :: collation is
  "\<lambda>c. if isUpper c then (unat c + 0x20, 1) else (unat c, 0)"
  by (auto simp: inj_on_def isLower_def isUpper_def word_le_nat_alt word_unat_eq_iff
      split: if_splits)


section \<open>JavaScript numbers\<close>

text \<open>
  The numbers of the program are the results of \<^verbatim>\<open>parseInt\<close> on strings of digits
  and the sums of such results: non-negative integer-valued doubles, or
  \<^verbatim>\<open>Infinity\<close>. \<open>Fin v\<close> is the double whose value is the integer \<open>v\<close>.
\<close>

datatype number = Fin nat | PosInf

fun bitlen :: "nat \<Rightarrow> nat" where
  "bitlen n = (if n = 0 then 0 else Suc (bitlen (n div 2)))"

declare bitlen.simps [simp del]

text \<open>
  The double nearest to a natural number (IEEE 754 round to nearest, ties to even):
  an integer below \<open>2^53\<close> is a double; above, only 53 significant bits are kept;
  from \<open>2^1024 - 2^970\<close> on the result is \<^verbatim>\<open>Infinity\<close>.
\<close>

definition roundDouble :: "nat \<Rightarrow> number" where
  "roundDouble n =
     (if n < 2 ^ 53 then Fin n
      else
        let e = bitlen n - 53;
            q = n div 2 ^ e;
            r = n mod 2 ^ e;
            h = 2 ^ (e - 1);
            q' = (if h < r \<or> (r = h \<and> odd q) then q + 1 else q)
        in if 2 ^ 1024 \<le> q' * 2 ^ e then PosInf else Fin (q' * 2 ^ e))"

text \<open>The integer a string of ASCII digits denotes.\<close>

definition digitsValue :: "jsstring \<Rightarrow> nat" where
  "digitsValue s = foldl (\<lambda>v c. 10 * v + (unat c - 48)) 0 s"

text \<open>
  \<^verbatim>\<open>parseInt(str)\<close> where \<^verbatim>\<open>str\<close> matches \<^verbatim>\<open>/^\d+$/\<close>: no sign, no prefix, radix 10,
  the whole string is read and the result is the Number value for that integer
  (correctly rounded, as V8 does also beyond the 20 significant digits from which on
  the language allows an approximation).
\<close>

definition parseInt :: "jsstring \<Rightarrow> number" where
  "parseInt str = roundDouble (digitsValue str)"

text \<open>\<^verbatim>\<open>acc + curr\<close>: the exact sum, rounded to a double.\<close>

fun add :: "number \<Rightarrow> number \<Rightarrow> number" where
  "add (Fin a) (Fin b) = roundDouble (a + b)"
| "add _ _ = PosInf"

text \<open>
  \<^verbatim>\<open>n % 2 !== 0\<close> and \<^verbatim>\<open>n % 2 === 0\<close>. The remainder of a finite double is exact;
  \<^verbatim>\<open>Infinity % 2\<close> is \<^verbatim>\<open>NaN\<close>, which is different from every number.
\<close>

fun remainderIsNonZero :: "number \<Rightarrow> bool" where
  "remainderIsNonZero (Fin v) = (v mod 2 \<noteq> 0)"
| "remainderIsNonZero PosInf = True"

fun remainderIsZero :: "number \<Rightarrow> bool" where
  "remainderIsZero (Fin v) = (v mod 2 = 0)"
| "remainderIsZero PosInf = False"

subsection \<open>Number to string\<close>

fun decimal :: "nat \<Rightarrow> jsstring" where
  "decimal n =
     (if n < 10 then [of_nat (48 + n)]
      else decimal (n div 10) @ [of_nat (48 + n mod 10)])"

declare decimal.simps [simp del]

definition numDigits :: "nat \<Rightarrow> nat" where
  "numDigits n = length (decimal n)"

text \<open>
  \<^verbatim>\<open>Number::toString\<close> chooses integers \<open>n\<close>, \<open>k\<close>, \<open>s\<close> with \<open>s\<close> of \<open>k\<close> digits such
  that \<open>s * 10^(n-k)\<close> reads back as the number, \<open>k\<close> as small as possible and, among
  those, \<open>s * 10^(n-k)\<close> closest to the number (an even \<open>s\<close> on a tie).
  \<open>candidates v k\<close> lists the pairs \<open>(w, n)\<close> with \<open>w = s * 10^(n-k)\<close> for the two
  multiples of \<open>10^(n-k)\<close> next to \<open>v\<close>; only they can be closest.
\<close>

definition candidates :: "nat \<Rightarrow> nat \<Rightarrow> (nat \<times> nat) list" where
  "candidates v k =
     concat (map (\<lambda>n.
       if n < k then []
       else filter (\<lambda>(w, n'). numDigits w = n' \<and> roundDouble w = Fin v)
              [((v div 10 ^ (n - k)) * 10 ^ (n - k), n),
               ((v div 10 ^ (n - k) + 1) * 10 ^ (n - k), n)])
       [numDigits v - 1, numDigits v, numDigits v + 1])"

definition distance :: "nat \<Rightarrow> nat \<Rightarrow> nat" where
  "distance v w = (if v \<le> w then w - v else v - w)"

fun closest :: "nat \<Rightarrow> nat \<Rightarrow> (nat \<times> nat) list \<Rightarrow> (nat \<times> nat) option" where
  "closest v k [] = None"
| "closest v k ((w, n) # cs) =
     (case closest v k cs of
        None \<Rightarrow> Some (w, n)
      | Some (w', n') \<Rightarrow>
          if distance v w < distance v w'
             \<or> (distance v w = distance v w' \<and> even (w div 10 ^ (n - k)))
          then Some (w, n) else Some (w', n'))"

fun shortest :: "nat \<Rightarrow> nat list \<Rightarrow> (nat \<times> nat \<times> nat) option" where
  "shortest v [] = None"
| "shortest v (k # ks) =
     (case closest v k (candidates v k) of
        Some (w, n) \<Rightarrow> Some (k, w, n)
      | None \<Rightarrow> shortest v ks)"

text \<open>
  The digits of \<open>s\<close> are followed by \<open>n - k\<close> zeros when \<open>n \<le> 21\<close>, and written
  in exponent notation otherwise. Seventeen digits determine every double.
\<close>

definition renderDigits :: "nat \<Rightarrow> nat \<Rightarrow> nat \<Rightarrow> jsstring" where
  "renderDigits k w n =
     (let ds = decimal (w div 10 ^ (n - k)) in
      if n \<le> 21 then ds @ replicate (n - k) 0x30
      else if k = 1 then ds @ lit ''e+'' @ decimal (n - 1)
      else take 1 ds @ lit ''.'' @ drop 1 ds @ lit ''e+'' @ decimal (n - 1))"

fun numberToString :: "number \<Rightarrow> jsstring" where
  "numberToString (Fin v) =
     (case shortest v [1 ..< 18] of
        Some (k, w, n) \<Rightarrow> renderDigits k w n
      | None \<Rightarrow> decimal v)"
| "numberToString PosInf = lit ''Infinity''"

declare numberToString.simps [simp del]

section \<open>JavaScript values\<close>

text \<open>
  The values a request body can hold. \<open>Num\<close> is a number with a non-negative integer
  value or \<^verbatim>\<open>Infinity\<close> (both zeros are \<open>Num (Fin 0)\<close>: \<^verbatim>\<open>String(-0)\<close> is \<^verbatim>\<open>"0"\<close> and
  \<^verbatim>\<open>-0\<close> is falsy). \<open>OtherNum\<close> is any other number, negative or with a fraction,
  given by the string \<^verbatim>\<open>Number::toString\<close> renders it as (\<^verbatim>\<open>"-3"\<close>, \<^verbatim>\<open>"1.5"\<close>,
  \<^verbatim>\<open>"1e-7"\<close>); such a number is not zero. \<open>Obj\<close> lists the own properties of an
  object, each key once. No value is callable.
\<close>

datatype jsval =
    Undefined
  | Null
  | Bool bool
  | Num number
  | NaN
  | OtherNum jsstring
  | Str jsstring
  | Arr "jsval list"
  | Obj "(jsstring \<times> jsval) list"

text \<open>What the program can throw: its own \<^verbatim>\<open>Error\<close>, or a \<^verbatim>\<open>TypeError\<close> of the
  runtime (with the wording of V8). Both carry a message.\<close>

datatype js_error = Error jsstring | TypeError jsstring

fun message :: "js_error \<Rightarrow> jsstring" where
  "message (Error m) = m"
| "message (TypeError m) = m"

text \<open>
  \<^verbatim>\<open>String(item)\<close>. An array is joined with commas, \<^verbatim>\<open>null\<close> and \<^verbatim>\<open>undefined\<close>
  elements giving the empty string. An object is converted by its \<^verbatim>\<open>toString\<close>
  method: the inherited one answers \<^verbatim>\<open>"[object Object]"\<close>; an own property
  \<^verbatim>\<open>toString\<close> hides it and is not callable, \<^verbatim>\<open>valueOf\<close> does not give a primitive
  either, and the conversion throws.
\<close>

fun String :: "jsval \<Rightarrow> js_error + jsstring"
  and join :: "jsval list \<Rightarrow> js_error + jsstring"
where
  "String Undefined = Inr (lit ''undefined'')"
| "String Null = Inr (lit ''null'')"
| "String (Bool b) = Inr (if b then lit ''true'' else lit ''false'')"
| "String (Num n) = Inr (numberToString n)"
| "String NaN = Inr (lit ''NaN'')"
| "String (OtherNum s) = Inr s"
| "String (Str s) = Inr s"
| "String (Arr xs) = join xs"
| "String (Obj kvs) =
     (if lit ''toString'' \<in> fst ` set kvs
      then Inl (TypeError (lit ''Cannot convert object to primitive value''))
      else Inr (lit ''[object Object]''))"
| "join [] = Inr []"
| "join (x # xs) =
     (case (if x = Undefined \<or> x = Null then Inr [] else String x) of
        Inl e \<Rightarrow> Inl e
      | Inr s \<Rightarrow>
          if xs = [] then Inr s
          else (case join xs of Inl e \<Rightarrow> Inl e | Inr t \<Rightarrow> Inr (s @ lit '','' @ t)))"

text \<open>\<^verbatim>\<open>inputData.data\<close>: reading a property of \<^verbatim>\<open>null\<close> or \<^verbatim>\<open>undefined\<close> throws;
  an absent property reads as \<^verbatim>\<open>undefined\<close>.\<close>

fun getData :: "jsval \<Rightarrow> js_error + jsval" where
  "getData Undefined =
     Inl (TypeError (lit ''Cannot read properties of undefined (reading 'data')''))"
| "getData Null =
     Inl (TypeError (lit ''Cannot read properties of null (reading 'data')''))"
| "getData (Obj kvs) =
     Inr (case map_of kvs (lit ''data'') of None \<Rightarrow> Undefined | Some v \<Rightarrow> v)"
| "getData _ = Inr Undefined"

fun truthy :: "jsval \<Rightarrow> bool" where
  "truthy Undefined = False"
| "truthy Null = False"
| "truthy (Bool b) = b"
| "truthy (Num n) = (n \<noteq> Fin 0)"
| "truthy NaN = False"
| "truthy (OtherNum s) = True"
| "truthy (Str s) = (s \<noteq> [])"
| "truthy (Arr xs) = True"
| "truthy (Obj kvs) = True"

text \<open>\<^verbatim>\<open>inputData.data || []\<close>\<close>

definition orEmptyArray :: "jsval \<Rightarrow> jsval" where
  "orEmptyArray d = (if truthy d then d else Arr [])"

fun isArray :: "jsval \<Rightarrow> bool" where
  "isArray (Arr xs) = True"
| "isArray _ = False"

section \<open>The classification loop\<close>

text \<open>
  The callback of \<^verbatim>\<open>data.forEach\<close>, on the three arrays \<^verbatim>\<open>numbers\<close>,
  \<^verbatim>\<open>alphabets\<close> and \<^verbatim>\<open>specialChars\<close> it pushes to. The text of the callback is the
  same in the server and in the client.
\<close>

type_synonym arrays = "number list \<times> jsstring list \<times> jsstring list"

fun processItem :: "jsval \<Rightarrow> arrays \<Rightarrow> js_error + arrays" where
  "processItem item (numbers, alphabets, specialChars) =
     (case String item of
        Inl e \<Rightarrow> Inl e
      | Inr s \<Rightarrow>
          let str = trim s in
          if matchesDigits str then Inr (numbers @ [parseInt str], alphabets, specialChars)
          else if matchesLetter str then Inr (numbers, alphabets @ [str], specialChars)
          else if length str > 0 then Inr (numbers, alphabets, specialChars @ [str])
          else Inr (numbers, alphabets, specialChars))"

fun forEach :: "jsval list \<Rightarrow> arrays \<Rightarrow> js_error + arrays" where
  "forEach [] acc = Inr acc"
| "forEach (item # items) acc =
     (case processItem item acc of
        Inl e \<Rightarrow> Inl e
      | Inr acc' \<Rightarrow> forEach items acc')"

section \<open>Sorting the letters\<close>

text \<open>The comparator passed to \<^verbatim>\<open>alphabets.sort\<close>, under the collation \<open>loc\<close> of the host.\<close>

definition sortCompare :: "collation \<Rightarrow> jsstring \<Rightarrow> jsstring \<Rightarrow> int" where
  "sortCompare loc a b =
     (if a = toUpperCase a \<and> b = toLowerCase b then - 1
      else if a = toLowerCase a \<and> b = toUpperCase b then 1
      else localeCompare loc a b)"

text \<open>
  \<^verbatim>\<open>Array.prototype.sort\<close> is stable and, for a comparator that is consistent on the
  elements, returns them in the order of the comparator whatever algorithm the
  engine runs. The model inserts the elements one by one, from the left, each behind
  the elements it does not precede.
\<close>

fun insertSorted :: "('a \<Rightarrow> 'a \<Rightarrow> int) \<Rightarrow> 'a \<Rightarrow> 'a list \<Rightarrow> 'a list" where
  "insertSorted cmp x [] = [x]"
| "insertSorted cmp x (y # ys) =
     (if cmp x y < 0 then x # y # ys else y # insertSorted cmp x ys)"

definition sortBy :: "('a \<Rightarrow> 'a \<Rightarrow> int) \<Rightarrow> 'a list \<Rightarrow> 'a list" where
  "sortBy cmp xs = foldl (\<lambda>ys x. insertSorted cmp x ys) [] xs"

section \<open>The result and the two implementations\<close>

record result =
  is_success :: bool
  error :: "jsstring option"
  user_id :: jsstring
  email :: jsstring
  roll_number :: jsstring
  odd_numbers :: "jsstring list"
  even_numbers :: "jsstring list"
  alphabets :: "jsstring list"
  special_characters :: "jsstring list"
  sum_field :: jsstring
  concat_string :: jsstring

record client_result = result +
  processed_with :: jsstring

text \<open>
  The body of the \<^verbatim>\<open>try\<close> block of \<^verbatim>\<open>processArrayData\<close> (server.js). The collation
  \<open>loc\<close> of the host is a parameter of both implementations.
\<close>

definition tryBlock :: "collation \<Rightarrow> jsval \<Rightarrow> js_error + result" where
  "tryBlock loc inputData =
     (case getData inputData of
        Inl e \<Rightarrow> Inl e
      | Inr d \<Rightarrow>
          (case orEmptyArray d of
             Arr items \<Rightarrow>
               (case forEach items ([], [], []) of
                  Inl e \<Rightarrow> Inl e
                | Inr (numbers, alphabets', specialChars) \<Rightarrow>
                    let oddNumbers = map numberToString (filter remainderIsNonZero numbers);
                        evenNumbers = map numberToString (filter remainderIsZero numbers);
                        sum = numberToString (foldl add (Fin 0) numbers);
                        sortedAlphabets = sortBy (sortCompare loc) alphabets';
                        concatString = concat sortedAlphabets
                    in Inr \<lparr> is_success = True,
                             error = None,
                             user_id = lit ''demo_user_29082025'',
                             email = lit ''demo@example.com'',
                             roll_number = lit ''12345'',
                             odd_numbers = oddNumbers,
                             even_numbers = evenNumbers,
                             alphabets = sortedAlphabets,
                             special_characters = specialChars,
                             sum_field = sum,
                             concat_string = concatString \<rparr>)
           | _ \<Rightarrow> Inl (Error (lit ''Input data must be an array''))))"

text \<open>The \<^verbatim>\<open>catch\<close> block.\<close>

definition catchBlock :: "js_error \<Rightarrow> result" where
  "catchBlock e =
     \<lparr> is_success = False,
       error = Some (message e),
       user_id = lit ''demo_user_29082025'',
       email = lit ''demo@example.com'',
       roll_number = lit ''12345'',
       odd_numbers = [],
       even_numbers = [],
       alphabets = [],
       special_characters = [],
       sum_field = lit ''0'',
       concat_string = [] \<rparr>"

definition processArrayData :: "collation \<Rightarrow> jsval \<Rightarrow> result" where
  "processArrayData loc inputData =
     (case tryBlock loc inputData of Inl e \<Rightarrow> catchBlock e | Inr r \<Rightarrow> r)"

text \<open>
  \<^verbatim>\<open>processArrayClientSide\<close> (app.js) has no \<^verbatim>\<open>try\<close> and no \<^verbatim>\<open>Array.isArray\<close> test:
  what is thrown reaches the caller, and \<^verbatim>\<open>data.forEach\<close> on a value that is not an
  array is a call of \<^verbatim>\<open>undefined\<close>.
\<close>

definition processArrayClientSide :: "collation \<Rightarrow> jsval \<Rightarrow> js_error + client_result" where
  "processArrayClientSide loc inputData =
     (case getData inputData of
        Inl e \<Rightarrow> Inl e
      | Inr d \<Rightarrow>
          (case orEmptyArray d of
             Arr items \<Rightarrow>
               (case forEach items ([], [], []) of
                  Inl e \<Rightarrow> Inl e
                | Inr (numbers, alphabets', specialChars) \<Rightarrow>
                    let oddNumbers = map numberToString (filter remainderIsNonZero numbers);
                        evenNumbers = map numberToString (filter remainderIsZero numbers);
                        sum = numberToString (foldl add (Fin 0) numbers);
                        sortedAlphabets = sortBy (sortCompare loc) alphabets';
                        concatString = concat sortedAlphabets
                    in Inr \<lparr> is_success = True,
                             error = None,
                             user_id = lit ''demo_user_29082025'',
                             email = lit ''demo@example.com'',
                             roll_number = lit ''12345'',
                             odd_numbers = oddNumbers,
                             even_numbers = evenNumbers,
                             alphabets = sortedAlphabets,
                             special_characters = specialChars,
                             sum_field = sum,
                             concat_string = concatString,
                             processed_with = lit ''client_side_fallback'' \<rparr>)
           | _ \<Rightarrow> Inl (TypeError (lit ''data.forEach is not a function''))))"

section \<open>Vocabulary of the specification\<close>

text \<open>
  The tokens of an input array: the trimmed string form of every element, in order,
  or the first error a conversion throws.
\<close>

fun tokens :: "jsval list \<Rightarrow> js_error + jsstring list" where
  "tokens [] = Inr []"
| "tokens (item # items) =
     (case String item of
        Inl e \<Rightarrow> Inl e
      | Inr s \<Rightarrow>
          (case tokens items of Inl e \<Rightarrow> Inl e | Inr strs \<Rightarrow> Inr (trim s # strs)))"

text \<open>
  The tokens of an input from which a token sequence is obtained: the \<^verbatim>\<open>data\<close> field
  is an array, or it is absent or falsy and stands for the empty array.
\<close>

definition inputTokens :: "jsval \<Rightarrow> jsstring list option" where
  "inputTokens inputData =
     (case getData inputData of
        Inl e \<Rightarrow> None
      | Inr d \<Rightarrow>
          (case orEmptyArray d of
             Arr items \<Rightarrow> (case tokens items of Inl e \<Rightarrow> None | Inr strs \<Rightarrow> Some strs)
           | _ \<Rightarrow> None))"

text \<open>A special token: not empty, neither numeric nor a single letter.\<close>

definition isSpecial :: "jsstring \<Rightarrow> bool" where
  "isSpecial str \<longleftrightarrow> \<not> matchesDigits str \<and> \<not> matchesLetter str \<and> length str > 0"

text \<open>The integer values of the numeric tokens, and their exact sum.\<close>

definition numericValues :: "jsstring list \<Rightarrow> nat list" where
  "numericValues strs = map digitsValue (filter matchesDigits strs)"

definition exactSum :: "jsstring list \<Rightarrow> nat" where
  "exactSum strs = sum_list (numericValues strs)"

text \<open>A decimal string in minimal form: digits only, no leading zero except for zero itself.\<close>

definition minimalDecimal :: "jsstring \<Rightarrow> bool" where
  "minimalDecimal t \<longleftrightarrow> matchesDigits t \<and> (t = lit ''0'' \<or> take 1 t \<noteq> lit ''0'')"


text \<open>
  The order the comparator sorts by under a collation: the case first, then the key of
  the collation. A collation is alphabetical when it orders letters of the same case
  as their code points do.
\<close>

definition localeKey :: "collation \<Rightarrow> jsstring \<Rightarrow> nat \<times> (nat \<times> nat) list" where
  "localeKey loc c = (if list_all isUpper c then 0 else 1, map (keyOf loc) c)"


text \<open>The request body \<^verbatim>\<open>{"data": [...]}\<close> for an array of strings.\<close>

definition request :: "string list \<Rightarrow> jsval" where
  "request ss = Obj [(lit ''data'', Arr (map (\<lambda>s. Str (lit s)) ss))]"

section \<open>Characters and the two patterns\<close>

lemma digits_not_letter: "matchesDigits s \<Longrightarrow> \<not> matchesLetter s"
  by (auto simp: matchesDigits_def matchesLetter_def isDigit_def isLower_def isUpper_def
      word_le_nat_alt split: list.splits)

lemma lower_not_upper: "isLower c \<Longrightarrow> \<not> isUpper c"
  by (auto simp: isLower_def isUpper_def word_le_nat_alt)

lemma eq_toUpperCase: "([c] = toUpperCase [c]) = (\<not> isLower c)"
  by (auto simp: toUpperCase_def)

lemma eq_toLowerCase: "([c] = toLowerCase [c]) = (\<not> isUpper c)"
  by (auto simp: toLowerCase_def)

lemma keyOf_inj:
  assumes "isLower c \<or> isUpper c" and "isLower d \<or> isUpper d"
    and "keyOf loc c = keyOf loc d"
  shows "c = d"
  using keyOf [of loc] assms by (auto simp: inj_on_def)

lemma localeCompare_single:
  "(localeCompare loc [c] [d] < 0) = (keyOf loc c < keyOf loc d)"
  "(0 < localeCompare loc [c] [d]) = (keyOf loc d < keyOf loc c)"
  by (auto simp: localeCompare_def)

section \<open>The loop fills the three arrays by pattern\<close>

lemma forEach_tokens:
  "forEach items (ns, ls, sp) =
     (case tokens items of
        Inl e \<Rightarrow> Inl e
      | Inr strs \<Rightarrow>
          Inr (ns @ map parseInt (filter matchesDigits strs),
               ls @ filter matchesLetter strs,
               sp @ filter isSpecial strs))"
  by (induction items arbitrary: ns ls sp)
     (auto simp: Let_def isSpecial_def digits_not_letter split: sum.splits)

section \<open>The comparator sorts by the case and the collation\<close>


lemma localeKey_single:
  "localeKey loc [c] = (if isUpper c then 0 else 1, [keyOf loc c])"
  by (simp add: localeKey_def)

lemma sortCompare_single:
  assumes "isLower c \<or> isUpper c" and "isLower d \<or> isUpper d"
  shows "(sortCompare loc [c] [d] < 0) = (localeKey loc [c] < localeKey loc [d])"
    and "(0 < sortCompare loc [c] [d]) = (localeKey loc [d] < localeKey loc [c])"
proof -
  consider "isUpper c" "isLower d" | "isLower c" "isUpper d"
    | "isLower c \<and> isLower d \<or> isUpper c \<and> isUpper d"
    using assms by blast
  then have "(sortCompare loc [c] [d] < 0) = (localeKey loc [c] < localeKey loc [d])
      \<and> (0 < sortCompare loc [c] [d]) = (localeKey loc [d] < localeKey loc [c])"
  proof cases
    case 1
    then show ?thesis
      using lower_not_upper[of d] lower_not_upper[of c]
      by (auto simp: sortCompare_def localeKey_single eq_toUpperCase eq_toLowerCase)
  next
    case 2
    then show ?thesis
      using lower_not_upper[of c] lower_not_upper[of d]
      by (auto simp: sortCompare_def localeKey_single eq_toUpperCase eq_toLowerCase)
  next
    case 3
    then have "sortCompare loc [c] [d] = localeCompare loc [c] [d]"
      using lower_not_upper[of c] lower_not_upper[of d]
      by (auto simp: sortCompare_def eq_toUpperCase eq_toLowerCase)
    then show ?thesis
      using 3 lower_not_upper[of c] lower_not_upper[of d]
      by (auto simp: localeKey_single localeCompare_single)
  qed
  then show "(sortCompare loc [c] [d] < 0) = (localeKey loc [c] < localeKey loc [d])"
    and "(0 < sortCompare loc [c] [d]) = (localeKey loc [d] < localeKey loc [c])"
    by simp_all
qed

lemma letter_cases:
  assumes "matchesLetter a"
  obtains c where "a = [c]" and "isLower c \<or> isUpper c"
  using assms by (auto simp: matchesLetter_def split: list.splits)

lemma sortCompare_letters:
  assumes "matchesLetter a" and "matchesLetter b"
  shows "(sortCompare loc a b < 0) = (localeKey loc a < localeKey loc b)"
  using assms by (elim letter_cases) (simp add: sortCompare_single)

lemma sortCompare_letters_pos:
  assumes "matchesLetter a" and "matchesLetter b"
  shows "(0 < sortCompare loc a b) = (localeKey loc b < localeKey loc a)"
  using assms by (elim letter_cases) (simp add: sortCompare_single)

lemma localeKey_inj:
  assumes "matchesLetter a" and "matchesLetter b" and "localeKey loc a = localeKey loc b"
  shows "a = b"
proof -
  from assms(1) obtain c where a: "a = [c]" and c: "isLower c \<or> isUpper c"
    by (rule letter_cases)
  from assms(2) obtain d where b: "b = [d]" and d: "isLower d \<or> isUpper d"
    by (rule letter_cases)
  have "keyOf loc c = keyOf loc d"
    using assms(3) by (simp add: a b localeKey_single split: if_splits)
  with c d have "c = d" by (rule keyOf_inj)
  then show ?thesis by (simp add: a b)
qed



subsection \<open>Insertion by a comparator that agrees with a key\<close>

lemma set_insertSorted: "set (insertSorted cmp x ys) = insert x (set ys)"
  by (induction ys) auto

lemma mset_insertSorted: "mset (insertSorted cmp x ys) = add_mset x (mset ys)"
  by (induction ys) auto

lemma sorted_insertSorted:
  fixes K :: "jsstring \<Rightarrow> 'k :: linorder"
  assumes agree: "\<And>a b. matchesLetter a \<Longrightarrow> matchesLetter b \<Longrightarrow> (cmp a b < 0) = (K a < K b)"
    and "matchesLetter x" "list_all matchesLetter ys" "sorted (map K ys)"
  shows "sorted (map K (insertSorted cmp x ys))"
  using assms(2-)
proof (induction ys)
  case Nil
  then show ?case by simp
next
  case (Cons y ys)
  show ?case
  proof (cases "cmp x y < 0")
    case True
    with Cons.prems have "K x < K y"
      by (simp add: agree)
    with Cons.prems True show ?thesis by fastforce
  next
    case False
    with Cons.prems have "K y \<le> K x"
      by (simp add: agree)
    with Cons False show ?thesis
      by (auto simp: set_insertSorted)
  qed
qed

lemma foldl_insertSorted_mset:
  "mset (foldl (\<lambda>ys x. insertSorted cmp x ys) acc xs) = mset acc + mset xs"
  by (induction xs arbitrary: acc) (simp_all add: mset_insertSorted)

lemma foldl_insertSorted_sorted:
  fixes K :: "jsstring \<Rightarrow> 'k :: linorder"
  assumes agree: "\<And>a b. matchesLetter a \<Longrightarrow> matchesLetter b \<Longrightarrow> (cmp a b < 0) = (K a < K b)"
    and "list_all matchesLetter xs" "list_all matchesLetter acc" "sorted (map K acc)"
  shows "sorted (map K (foldl (\<lambda>ys x. insertSorted cmp x ys) acc xs))"
  using assms(2-)
proof (induction xs arbitrary: acc)
  case Nil
  then show ?case by simp
next
  case (Cons x xs)
  have "list_all matchesLetter (insertSorted cmp x acc)"
    using Cons.prems by (simp add: list_all_iff set_insertSorted)
  moreover have "sorted (map K (insertSorted cmp x acc))"
    using Cons.prems by (intro sorted_insertSorted agree) simp_all
  ultimately show ?case
    using Cons.IH Cons.prems by simp
qed

lemma mset_sortBy: "mset (sortBy cmp xs) = mset xs"
  by (simp add: sortBy_def foldl_insertSorted_mset)

lemma sorted_sortBy:
  fixes K :: "jsstring \<Rightarrow> 'k :: linorder"
  assumes "\<And>a b. matchesLetter a \<Longrightarrow> matchesLetter b \<Longrightarrow> (cmp a b < 0) = (K a < K b)"
    and "list_all matchesLetter xs"
  shows "sorted (map K (sortBy cmp xs))"
  unfolding sortBy_def using assms by (intro foldl_insertSorted_sorted) simp_all

lemma filter_eq_replicate: "filter ((=) k) xs = replicate (count (mset xs) k) k"
  by (induction xs) auto

text \<open>A key that is injective on the letters determines the sorted list of letters.\<close>

lemma sorted_letters_unique:
  fixes K :: "jsstring \<Rightarrow> 'k :: linorder"
  assumes inj: "\<And>a b. matchesLetter a \<Longrightarrow> matchesLetter b \<Longrightarrow> K a = K b \<Longrightarrow> a = b"
    and letters: "list_all matchesLetter xs"
    and "mset ys = mset xs" "sorted (map K ys)"
  shows "sort_key K xs = ys"
proof (rule properties_for_sort_key)
  show "mset ys = mset xs" by fact
  show "sorted (map K ys)" by fact
next
  fix k assume k: "k \<in> set ys"
  have sets: "set ys = set xs"
    using assms(3) by (rule mset_eq_setD)
  have l: "matchesLetter x" if "x \<in> set xs" for x
    using letters that by (simp add: list_all_iff)
  have "filter (\<lambda>x. K k = K x) zs = filter ((=) k) zs" if "set zs \<subseteq> set xs" for zs
    using that k sets l inj by (intro filter_cong) auto
  then show "filter (\<lambda>x. K k = K x) ys = filter (\<lambda>x. K k = K x) xs"
    using sets assms(3) by (simp add: filter_eq_replicate)
qed

lemma sortBy_sort_key:
  fixes K :: "jsstring \<Rightarrow> 'k :: linorder"
  assumes "\<And>a b. matchesLetter a \<Longrightarrow> matchesLetter b \<Longrightarrow> (cmp a b < 0) = (K a < K b)"
    and "\<And>a b. matchesLetter a \<Longrightarrow> matchesLetter b \<Longrightarrow> K a = K b \<Longrightarrow> a = b"
    and "list_all matchesLetter xs"
  shows "sortBy cmp xs = sort_key K xs"
proof -
  have "sort_key K xs = sortBy cmp xs"
    using assms(2,3)
  proof (rule sorted_letters_unique)
    show "mset (sortBy cmp xs) = mset xs" by (rule mset_sortBy)
    show "sorted (map K (sortBy cmp xs))" using assms(1,3) by (rule sorted_sortBy)
  qed
  then show ?thesis by simp
qed

lemma sortBy_localeKey:
  "list_all matchesLetter xs \<Longrightarrow> sortBy (sortCompare loc) xs = sort_key (localeKey loc) xs"
  by (rule sortBy_sort_key) (simp_all add: sortCompare_letters localeKey_inj)


text \<open>
  Whatever algorithm sorts: a permutation of the letters that the comparator accepts
  as ordered is the one the model returns.
\<close>

lemma sort_result_unique:
  assumes "list_all matchesLetter xs" and "mset ys = mset xs"
    and "sorted_wrt (\<lambda>a b. \<not> sortCompare loc b a < 0) ys"
  shows "ys = sortBy (sortCompare loc) xs"
proof -
  have "set ys = set xs"
    using assms(2) by (rule mset_eq_setD)
  then have letters: "\<And>y. y \<in> set ys \<Longrightarrow> matchesLetter y"
    using assms(1) by (simp add: list_all_iff)
  have "sorted_wrt (\<lambda>a b. localeKey loc a \<le> localeKey loc b) ys"
  proof (rule sorted_wrt_mono_rel [OF _ assms(3)])
    fix a b assume "a \<in> set ys" "b \<in> set ys" "\<not> sortCompare loc b a < 0"
    then show "localeKey loc a \<le> localeKey loc b"
      using sortCompare_letters [of b a loc] letters by (simp add: not_less)
  qed
  then have "sorted (map (localeKey loc) ys)"
    by (simp add: sorted_map)
  with localeKey_inj assms(1,2) have "sort_key (localeKey loc) xs = ys"
    by (rule sorted_letters_unique)
  with assms(1) show ?thesis
    by (simp add: sortBy_localeKey)
qed


section \<open>Numbers below \<open>2^53\<close> are exact\<close>

lemma decimal_0: "decimal 0 = lit ''0''"
  by (simp add: decimal.simps lit_def)

lemma digitsValue_snoc: "digitsValue (s @ [c]) = 10 * digitsValue s + (unat c - 48)"
  by (simp add: digitsValue_def)

lemma unat_digit:
  assumes "d < 10"
  shows "unat (48 + of_nat d :: jschar) = 48 + d"
proof -
  have "unat (of_nat (48 + d) :: jschar) = 48 + d"
    unfolding unat_of_nat using assms by simp
  then show ?thesis by simp
qed

lemma digitsValue_decimal: "digitsValue (decimal n) = n"
proof (induction n rule: decimal.induct)
  case (1 n)
  show ?case
  proof (cases "n < 10")
    case True
    then show ?thesis
      by (simp add: decimal.simps [of n] digitsValue_def unat_digit)
  next
    case False
    with 1 show ?thesis
      by (simp add: decimal.simps [of n] digitsValue_snoc unat_digit)
  qed
qed

lemma isDigit_digit: "d < 10 \<Longrightarrow> isDigit (48 + of_nat d)"
  by (simp add: isDigit_def word_le_nat_alt unat_digit)

lemma digits_decimal: "list_all isDigit (decimal n) \<and> decimal n \<noteq> []"
proof (induction n rule: decimal.induct)
  case (1 n)
  show ?case
  proof (cases "n < 10")
    case True
    then show ?thesis
      by (simp add: decimal.simps [of n] isDigit_digit)
  next
    case False
    with 1 show ?thesis
      by (simp add: decimal.simps [of n] isDigit_digit)
  qed
qed

lemma take1_decimal: "0 < n \<Longrightarrow> take 1 (decimal n) \<noteq> lit ''0''"
proof (induction n rule: decimal.induct)
  case (1 n)
  show ?case
  proof (cases "n < 10")
    case True
    have "unat (48 + of_nat n :: jschar) \<noteq> unat (48 :: jschar)"
      using True 1 by (simp add: unat_digit)
    then have "(48 + of_nat n :: jschar) \<noteq> 48" by metis
    with True show ?thesis
      by (simp add: decimal.simps [of n] lit_def)
  next
    case False
    then have "take 1 (decimal n) = take 1 (decimal (n div 10))"
      using digits_decimal [of "n div 10"]
      by (cases "decimal (n div 10)") (simp_all add: decimal.simps [of n])
    with 1 False show ?thesis by simp
  qed
qed

lemma minimalDecimal_decimal: "minimalDecimal (decimal n)"
  using digits_decimal [of n] take1_decimal [of n] decimal_0
  by (cases "n = 0") (auto simp: minimalDecimal_def matchesDigits_def)

lemma roundDouble_small: "n < 2 ^ 53 \<Longrightarrow> roundDouble n = Fin n"
  by (simp add: roundDouble_def)

lemma parseInt_small: "digitsValue s < 2 ^ 53 \<Longrightarrow> parseInt s = Fin (digitsValue s)"
  by (simp add: parseInt_def roundDouble_small)

text \<open>
  Below \<open>2^53\<close> every integer is its own double and no other integer reads back as
  it, so the shortest digits are the decimal expansion.
\<close>

lemma bitlen_bounds: "0 < n \<Longrightarrow> 2 ^ (bitlen n - 1) \<le> n \<and> n < 2 ^ bitlen n"
proof (induction n rule: bitlen.induct)
  case (1 n)
  show ?case
  proof (cases "n div 2 = 0")
    case True
    with 1 have "n = 1" by (simp add: div_eq_0_iff)
    then show ?thesis by (simp add: bitlen.simps)
  next
    case False
    then have "2 ^ (bitlen (n div 2) - 1) \<le> n div 2 \<and> n div 2 < 2 ^ bitlen (n div 2)"
      using 1 by simp
    moreover have "bitlen n = Suc (bitlen (n div 2))"
      using 1 by (simp add: bitlen.simps [of n])
    moreover have "0 < bitlen (n div 2)"
      using False by (simp add: bitlen.simps [of "n div 2"])
    ultimately show ?thesis
      by (cases "bitlen (n div 2)") auto
  qed
qed

lemma roundDouble_large:
  assumes "2 ^ 53 \<le> w" and "roundDouble w = Fin u"
  shows "2 ^ 53 \<le> u"
proof -
  define e where "e = bitlen w - 53"
  define q where "q = w div 2 ^ e"
  define q' where "q' = (if 2 ^ (e - 1) < w mod 2 ^ e \<or> (w mod 2 ^ e = 2 ^ (e - 1) \<and> odd q)
                         then q + 1 else q)"
  have w: "0 < w" using assms(1) by (simp add: order.strict_trans2 [of 0 "2 ^ 53"])
  from bitlen_bounds [OF w] have lo: "2 ^ (bitlen w - 1) \<le> w" and hi: "w < 2 ^ bitlen w"
    by simp_all
  have "(2::nat) ^ 53 < 2 ^ bitlen w" using assms(1) hi by (rule le_less_trans)
  then have b: "53 < bitlen w" by (rule power_less_imp_less_exp [rotated]) simp
  then have "bitlen w - 1 = 52 + e" by (simp add: e_def)
  with lo have "2 ^ 52 * 2 ^ e \<le> w" by (simp add: power_add)
  then have "2 ^ 52 \<le> q"
    unfolding q_def by (simp add: less_eq_div_iff_mult_less_eq)
  then have "2 ^ 52 \<le> q'" by (simp add: q'_def)
  moreover have "1 \<le> e" using b by (simp add: e_def)
  then have "(2::nat) ^ 1 \<le> 2 ^ e" by (intro power_increasing) simp_all
  ultimately have "2 ^ 52 * 2 ^ 1 \<le> q' * 2 ^ e"
    by (intro mult_mono) simp_all
  then have big: "2 ^ 53 \<le> q' * 2 ^ e" by simp
  have "roundDouble w = (if 2 ^ 1024 \<le> q' * 2 ^ e then PosInf else Fin (q' * 2 ^ e))"
    using assms(1) by (simp add: roundDouble_def Let_def e_def q_def q'_def)
  with assms(2) have "u = q' * 2 ^ e"
    by (simp split: if_splits)
  with big show ?thesis by simp
qed

lemma roundDouble_reads_back:
  assumes "v < 2 ^ 53" and "roundDouble w = Fin v"
  shows "w = v"
proof (cases "w < 2 ^ 53")
  case True
  with assms(2) show ?thesis by (simp add: roundDouble_def)
next
  case False
  then have "2 ^ 53 \<le> v"
    using roundDouble_large [of w v] assms(2) by simp
  with assms(1) show ?thesis by simp
qed


lemma decimal_times_10: "0 < m \<Longrightarrow> decimal (m * 10) = decimal m @ [0x30]"
  by (simp add: decimal.simps [of "m * 10"])

lemma decimal_times_power_10: "0 < m \<Longrightarrow> decimal (m * 10 ^ z) = decimal m @ replicate z 0x30"
proof (induction z)
  case 0
  then show ?case by simp
next
  case (Suc z)
  have "m * 10 ^ Suc z = (m * 10 ^ z) * 10"
    by simp
  then have "decimal (m * 10 ^ Suc z) = decimal ((m * 10 ^ z) * 10)"
    by (simp only:)
  also have "\<dots> = decimal (m * 10 ^ z) @ [0x30]"
    using Suc.prems by (intro decimal_times_10) simp
  also have "\<dots> = decimal m @ replicate (Suc z) 0x30"
    using Suc by (simp add: replicate_append_same)
  finally show ?case .
qed

lemma numDigits_bound: "0 < d \<Longrightarrow> v < 10 ^ d \<Longrightarrow> numDigits v \<le> d"
proof (induction v arbitrary: d rule: decimal.induct)
  case (1 n)
  show ?case
  proof (cases "n < 10")
    case True
    with 1 show ?thesis by (simp add: numDigits_def decimal.simps [of n])
  next
    case False
    with "1.prems" have d: "1 < d"
      by (cases "d = 1") auto
    then obtain d' where d': "d = Suc d'" "0 < d'"
      by (cases d) auto
    have "n div 10 < 10 ^ d'"
      using "1.prems"(2) d' by (simp add: less_mult_imp_div_less mult.commute)
    with "1.IH" [OF False d'(2)] have "numDigits (n div 10) \<le> d'" by simp
    with False d' show ?thesis
      by (simp add: numDigits_def decimal.simps [of n])
  qed
qed

lemma candidate_pair:
  assumes "(w, n) \<in> set (if n0 < k then []
            else filter (\<lambda>(w, n'). numDigits w = n' \<and> roundDouble w = Fin v) [(a, n0), (b, n0)])"
  shows "n = n0 \<and> k \<le> n \<and> numDigits w = n \<and> roundDouble w = Fin v \<and> (w = a \<or> w = b)"
  using assms by (auto split: if_splits)

lemma candidates_small:
  assumes "v < 2 ^ 53" and "(w, n) \<in> set (candidates v k)"
  shows "w = v \<and> n = numDigits v \<and> k \<le> n \<and> 10 ^ (n - k) dvd v"
proof -
  define p where "p = (10::nat) ^ (n - k)"
  from assms(2) obtain n0 where
    "(w, n) \<in> set (if n0 < k then []
            else filter (\<lambda>(w, n'). numDigits w = n' \<and> roundDouble w = Fin v)
              [((v div 10 ^ (n0 - k)) * 10 ^ (n0 - k), n0),
               ((v div 10 ^ (n0 - k) + 1) * 10 ^ (n0 - k), n0)])"
    unfolding candidates_def set_concat set_map by blast
  from candidate_pair [OF this]
  have k: "k \<le> n" and nd: "numDigits w = n" and r: "roundDouble w = Fin v"
    and w: "w = (v div p) * p \<or> w = (v div p + 1) * p"
    unfolding p_def by blast+
  have wv: "w = v" using assms(1) r by (rule roundDouble_reads_back)
  have "p > 0" by (simp add: p_def)
  then have "v < (v div p + 1) * p"
    using dividend_less_times_div [of p v] by (simp add: mult.commute)
  with w wv have "v = (v div p) * p" by auto
  then have "p dvd v" by (metis dvd_triv_right)
  with wv nd k show ?thesis by (simp add: p_def)
qed

lemma closest_member: "closest v k cs = Some (w, n) \<Longrightarrow> (w, n) \<in> set cs"
  by (induction cs arbitrary: w n) (auto split: option.splits if_splits)

lemma shortest_member:
  "shortest v ks = Some (k, w, n) \<Longrightarrow> k \<in> set ks \<and> (w, n) \<in> set (candidates v k)"
  by (induction ks) (auto split: option.splits dest: closest_member)

lemma numberToString_small:
  assumes "v < 2 ^ 53"
  shows "numberToString (Fin v) = decimal v"
proof (cases "shortest v [1 ..< 18]")
  case None
  then show ?thesis by (simp add: numberToString.simps)
next
  case (Some t)
  obtain k w n where t: "t = (k, w, n)" by (cases t) auto
  from shortest_member [OF Some [unfolded t]]
  have k1: "1 \<le> k" and c: "(w, n) \<in> set (candidates v k)" by auto
  from candidates_small [OF assms c]
  have w: "w = v" and n: "n = numDigits v" and kn: "k \<le> n" and dvd: "10 ^ (n - k) dvd v"
    by blast+
  have "v < 10 ^ 16" using assms by simp
  then have "numDigits v \<le> 16" by (intro numDigits_bound) simp_all
  then have n21: "n \<le> 21" using n by simp
  have "decimal (v div 10 ^ (n - k)) @ replicate (n - k) 0x30 = decimal v"
  proof (cases "v = 0")
    case True
    then have "n = 1" using n by (simp add: numDigits_def decimal.simps [of 0])
    with k1 kn True show ?thesis by simp
  next
    case False
    from dvd obtain m where m: "v = m * 10 ^ (n - k)"
      by (metis dvd_div_mult_self)
    with False have "0 < m" by (cases "m = 0") auto
    then show ?thesis
      using m by (simp add: decimal_times_power_10)
  qed
  then show ?thesis
    using Some t w n21 by (simp add: numberToString.simps renderDigits_def Let_def)
qed

lemma foldl_add_exact:
  "a + sum_list vs < 2 ^ 53 \<Longrightarrow> foldl add (Fin a) (map Fin vs) = Fin (a + sum_list vs)"
proof (induction vs arbitrary: a)
  case Nil
  then show ?case by simp
next
  case (Cons v vs)
  then have "a + v < 2 ^ 53" by simp
  then have "add (Fin a) (Fin v) = Fin (a + v)" by (simp add: roundDouble_small)
  with Cons show ?case by (simp add: add.assoc)
qed

lemma map_parseInt_exact:
  assumes "sum_list (map digitsValue toks) < 2 ^ 53"
  shows "map parseInt toks = map Fin (map digitsValue toks)"
proof -
  have "digitsValue t < 2 ^ 53" if "t \<in> set toks" for t
  proof -
    have "digitsValue t \<le> sum_list (map digitsValue toks)"
      using that by (simp add: member_le_sum_list)
    with assms show ?thesis by simp
  qed
  then show ?thesis by (simp add: parseInt_small)
qed

lemma filter_nonzero_Fin: "filter remainderIsNonZero (map Fin vs) = map Fin (filter odd vs)"
  by (induction vs) (auto simp: odd_iff_mod_2_eq_one)

lemma filter_zero_Fin: "filter remainderIsZero (map Fin vs) = map Fin (filter even vs)"
  by (induction vs) (auto simp: even_iff_mod_2_eq_zero)

lemma sum_list_parity: "sum_list (filter odd vs) + sum_list (filter even vs) = sum_list (vs :: nat list)"
  by (induction vs) auto

lemma filter_le_sum_list: "sum_list (filter P vs) \<le> sum_list (vs :: nat list)"
  by (induction vs) auto

lemma remainder_partition: "remainderIsZero n = (\<not> remainderIsNonZero n)"
  by (cases n) auto


section \<open>Both implementations in terms of the tokens\<close>

lemma tryBlock_tokens:
  assumes "inputTokens x = Some strs"
  shows "tryBlock loc x =
    Inr \<lparr> is_success = True,
          error = None,
          user_id = lit ''demo_user_29082025'',
          email = lit ''demo@example.com'',
          roll_number = lit ''12345'',
          odd_numbers =
            map numberToString (filter remainderIsNonZero (map parseInt (filter matchesDigits strs))),
          even_numbers =
            map numberToString (filter remainderIsZero (map parseInt (filter matchesDigits strs))),
          alphabets = sortBy (sortCompare loc) (filter matchesLetter strs),
          special_characters = filter isSpecial strs,
          sum_field = numberToString (foldl add (Fin 0) (map parseInt (filter matchesDigits strs))),
          concat_string = concat (sortBy (sortCompare loc) (filter matchesLetter strs)) \<rparr>"
  using assms
  by (auto simp: inputTokens_def tryBlock_def forEach_tokens Let_def
      split: sum.splits jsval.splits)

lemma tryBlock_no_tokens:
  assumes "inputTokens x = None"
  shows "\<exists>e. tryBlock loc x = Inl e"
  using assms
  by (auto simp: inputTokens_def tryBlock_def forEach_tokens Let_def
      split: sum.splits jsval.splits)

lemma client_tokens:
  assumes "inputTokens x = Some strs"
  shows "processArrayClientSide loc x =
    Inr \<lparr> is_success = True,
          error = None,
          user_id = lit ''demo_user_29082025'',
          email = lit ''demo@example.com'',
          roll_number = lit ''12345'',
          odd_numbers =
            map numberToString (filter remainderIsNonZero (map parseInt (filter matchesDigits strs))),
          even_numbers =
            map numberToString (filter remainderIsZero (map parseInt (filter matchesDigits strs))),
          alphabets = sortBy (sortCompare loc) (filter matchesLetter strs),
          special_characters = filter isSpecial strs,
          sum_field = numberToString (foldl add (Fin 0) (map parseInt (filter matchesDigits strs))),
          concat_string = concat (sortBy (sortCompare loc) (filter matchesLetter strs)),
          processed_with = lit ''client_side_fallback'' \<rparr>"
  using assms
  by (auto simp: inputTokens_def processArrayClientSide_def forEach_tokens Let_def
      split: sum.splits jsval.splits)

lemma client_no_tokens:
  assumes "inputTokens x = None"
  shows "\<exists>e. processArrayClientSide loc x = Inl e"
  using assms
  by (auto simp: inputTokens_def processArrayClientSide_def forEach_tokens Let_def
      split: sum.splits jsval.splits)

lemma processArrayData_tokens:
  assumes "inputTokens x = Some strs"
  shows "is_success (processArrayData loc x)"
    and "error (processArrayData loc x) = None"
    and "odd_numbers (processArrayData loc x) =
      map numberToString (filter remainderIsNonZero (map parseInt (filter matchesDigits strs)))"
    and "even_numbers (processArrayData loc x) =
      map numberToString (filter remainderIsZero (map parseInt (filter matchesDigits strs)))"
    and "alphabets (processArrayData loc x) = sortBy (sortCompare loc) (filter matchesLetter strs)"
    and "special_characters (processArrayData loc x) = filter isSpecial strs"
    and "sum_field (processArrayData loc x) =
      numberToString (foldl add (Fin 0) (map parseInt (filter matchesDigits strs)))"
    and "concat_string (processArrayData loc x) =
      concat (sortBy (sortCompare loc) (filter matchesLetter strs))"
  by (simp_all add: processArrayData_def tryBlock_tokens [OF assms])

lemma inputTokens_empty:
  assumes "getData x = Inr d" "\<not> truthy d \<or> d = Arr []"
  shows "inputTokens x = Some []"
  using assms by (auto simp: inputTokens_def orEmptyArray_def)

section \<open>Concrete inputs\<close>

lemma tokens_strings: "tokens (map (\<lambda>s. Str (lit s)) ss) = Inr (map (\<lambda>s. trim (lit s)) ss)"
  by (induction ss) simp_all

lemma inputTokens_request: "inputTokens (request ss) = Some (map (\<lambda>s. trim (lit s)) ss)"
  by (simp add: request_def inputTokens_def orEmptyArray_def tokens_strings)

lemmas js_eval =
  lit_def trim_def isWhiteSpace_def matchesDigits_def matchesLetter_def isDigit_def
  isLower_def isUpper_def isSpecial_def

lemmas sort_eval =
  sortBy_def sortCompare_def toUpperCase_def toLowerCase_def localeCompare_def
  rootCollation.rep_eq

lemmas number_eval =
  parseInt_def digitsValue_def roundDouble_small numberToString_small decimal.simps

subsection \<open>The scenarios of the test suite\<close>

text \<open>The expected responses of test.js, computed on the model.\<close>

lemma scenario_basic:
  "processArrayData rootCollation (request [''a'', ''1'', ''23'', ''$'', ''B'']) =
     \<lparr> is_success = True, error = None,
       user_id = lit ''demo_user_29082025'', email = lit ''demo@example.com'',
       roll_number = lit ''12345'',
       odd_numbers = [lit ''1'', lit ''23''], even_numbers = [],
       alphabets = [lit ''B'', lit ''a''], special_characters = [lit ''$''],
       sum_field = lit ''24'', concat_string = lit ''Ba'' \<rparr>"
  by (simp add: processArrayData_def tryBlock_tokens [OF inputTokens_request]
      js_eval sort_eval number_eval)

lemma scenario_even:
  "odd_numbers (processArrayData rootCollation (request [''2'', ''4'', ''z'', ''Z'', ''@'', ''6''])) = []
   \<and> even_numbers (processArrayData rootCollation (request [''2'', ''4'', ''z'', ''Z'', ''@'', ''6'']))
       = [lit ''2'', lit ''4'', lit ''6'']
   \<and> sum_field (processArrayData rootCollation (request [''2'', ''4'', ''z'', ''Z'', ''@'', ''6''])) = lit ''12''"
  by (simp add: processArrayData_tokens [OF inputTokens_request] js_eval number_eval)

lemma scenario_letters:
  "alphabets (processArrayData rootCollation (request [''x'', ''5'', ''y'', ''11'', ''#'', ''3'', ''Z'', ''A'']))
       = [lit ''A'', lit ''Z'', lit ''x'', lit ''y'']
   \<and> concat_string (processArrayData rootCollation (request [''x'', ''5'', ''y'', ''11'', ''#'', ''3'', ''Z'', ''A'']))
       = lit ''AZxy''"
  by (simp add: processArrayData_tokens [OF inputTokens_request] js_eval sort_eval)

section \<open>Shape of the input\<close>

text \<open>
  C7: for the empty input sequence, whether the \<^verbatim>\<open>data\<close> field holds an empty array or
  is absent, the result is a success with all four arrays empty, sum \<^verbatim>\<open>"0"\<close> and the
  empty concatenation.
\<close>

theorem empty_input_succeeds:
  assumes "map_of kvs (lit ''data'') = None \<or> map_of kvs (lit ''data'') = Some (Arr [])"
  shows "is_success (processArrayData loc (Obj kvs))
    \<and> odd_numbers (processArrayData loc (Obj kvs)) = []
    \<and> even_numbers (processArrayData loc (Obj kvs)) = []
    \<and> alphabets (processArrayData loc (Obj kvs)) = []
    \<and> special_characters (processArrayData loc (Obj kvs)) = []
    \<and> sum_field (processArrayData loc (Obj kvs)) = lit ''0''
    \<and> concat_string (processArrayData loc (Obj kvs)) = []"
proof -
  have "inputTokens (Obj kvs) = Some []"
    using assms by (auto simp: inputTokens_def orEmptyArray_def)
  then show ?thesis
    by (simp add: processArrayData_tokens sortBy_def numberToString_small decimal_0)
qed

theorem empty_input_succeeds_witness:
  "(map_of [] (lit ''data'') = None \<or> map_of [] (lit ''data'') = Some (Arr []))
    \<and> is_success (processArrayData rootCollation (Obj []))
    \<and> odd_numbers (processArrayData rootCollation (Obj [])) = []
    \<and> even_numbers (processArrayData rootCollation (Obj [])) = []
    \<and> alphabets (processArrayData rootCollation (Obj [])) = []
    \<and> special_characters (processArrayData rootCollation (Obj [])) = []
    \<and> sum_field (processArrayData rootCollation (Obj [])) = lit ''0''
    \<and> concat_string (processArrayData rootCollation (Obj [])) = []"
  using empty_input_succeeds [of "[]"] by simp

text \<open>
  C10: when the \<^verbatim>\<open>data\<close> field is present and holds a falsy value that is not an array
  (\<^verbatim>\<open>null\<close>, \<^verbatim>\<open>false\<close>, \<^verbatim>\<open>0\<close>, \<^verbatim>\<open>NaN\<close> or the empty string), the field is treated as
  the empty sequence: the server and the client both return the success result with
  all arrays empty, sum \<^verbatim>\<open>"0"\<close> and the empty concatenation.
\<close>

theorem falsy_data_is_empty_array:
  assumes "map_of kvs (lit ''data'') = Some d"
    and "d \<in> {Null, Bool False, Num (Fin 0), NaN, Str []}"
  shows "is_success (processArrayData loc (Obj kvs))
    \<and> odd_numbers (processArrayData loc (Obj kvs)) = []
    \<and> even_numbers (processArrayData loc (Obj kvs)) = []
    \<and> alphabets (processArrayData loc (Obj kvs)) = []
    \<and> special_characters (processArrayData loc (Obj kvs)) = []
    \<and> sum_field (processArrayData loc (Obj kvs)) = lit ''0''
    \<and> concat_string (processArrayData loc (Obj kvs)) = []
    \<and> (\<exists>r. processArrayClientSide loc (Obj kvs) = Inr r
          \<and> is_success r \<and> odd_numbers r = [] \<and> even_numbers r = [] \<and> alphabets r = []
          \<and> special_characters r = [] \<and> sum_field r = lit ''0'' \<and> concat_string r = [])"
proof -
  have "\<not> truthy d" using assms(2) by auto
  then have "inputTokens (Obj kvs) = Some []"
    using assms(1) by (auto intro!: inputTokens_empty)
  then show ?thesis
    by (simp add: processArrayData_tokens client_tokens sortBy_def numberToString_small decimal_0)
qed

theorem falsy_data_is_empty_array_witness:
  "map_of [(lit ''data'', Num (Fin 0))] (lit ''data'') = Some (Num (Fin 0))
    \<and> Num (Fin 0) \<in> {Null, Bool False, Num (Fin 0), NaN, Str []}
    \<and> is_success (processArrayData rootCollation (Obj [(lit ''data'', Num (Fin 0))]))
    \<and> sum_field (processArrayData rootCollation (Obj [(lit ''data'', Num (Fin 0))])) = lit ''0''"
  using falsy_data_is_empty_array [of "[(lit ''data'', Num (Fin 0))]" "Num (Fin 0)"] by simp

text \<open>
  Where the \<^verbatim>\<open>Array.isArray\<close> guard is reached, that is when the \<^verbatim>\<open>data\<close> field is
  present, truthy and not an array (a non-empty string, a number other than zero and
  \<^verbatim>\<open>NaN\<close>, \<^verbatim>\<open>true\<close>, an object), the result is the failure result: \<^verbatim>\<open>is_success\<close>
  false, the error description \<^verbatim>\<open>"Input data must be an array"\<close>, all arrays empty,
  sum \<^verbatim>\<open>"0"\<close>, empty concatenation.
\<close>

theorem truthy_non_array_data_fails:
  assumes "map_of kvs (lit ''data'') = Some d" and "truthy d" and "\<not> isArray d"
  shows "\<not> is_success (processArrayData loc (Obj kvs))
    \<and> error (processArrayData loc (Obj kvs)) = Some (lit ''Input data must be an array'')
    \<and> odd_numbers (processArrayData loc (Obj kvs)) = []
    \<and> even_numbers (processArrayData loc (Obj kvs)) = []
    \<and> alphabets (processArrayData loc (Obj kvs)) = []
    \<and> special_characters (processArrayData loc (Obj kvs)) = []
    \<and> sum_field (processArrayData loc (Obj kvs)) = lit ''0''
    \<and> concat_string (processArrayData loc (Obj kvs)) = []"
proof -
  have "tryBlock loc (Obj kvs) = Inl (Error (lit ''Input data must be an array''))"
    using assms by (cases d) (simp_all add: tryBlock_def orEmptyArray_def)
  then show ?thesis
    by (simp add: processArrayData_def catchBlock_def)
qed

theorem truthy_non_array_data_fails_witness:
  "map_of [(lit ''data'', Str (lit ''not an array''))] (lit ''data'')
      = Some (Str (lit ''not an array''))
    \<and> truthy (Str (lit ''not an array'')) \<and> \<not> isArray (Str (lit ''not an array''))
    \<and> \<not> is_success (processArrayData rootCollation (Obj [(lit ''data'', Str (lit ''not an array''))]))
    \<and> error (processArrayData rootCollation (Obj [(lit ''data'', Str (lit ''not an array''))]))
        = Some (lit ''Input data must be an array'')"
  using truthy_non_array_data_fails
    [of "[(lit ''data'', Str (lit ''not an array''))]" "Str (lit ''not an array'')"]
  by (simp add: lit_def)

text \<open>
  C1: a \<^verbatim>\<open>data\<close> field that is present and not an array must give the failure result,
  never a success. The code misses the falsy values: \<^verbatim>\<open>inputData.data || []\<close> replaces
  them by the empty array before the guard is reached. For the request body
  \<^verbatim>\<open>{"data": ""}\<close> the field is present, it is a string and not an array, and the
  result is the success result.
\<close>

theorem empty_string_data_succeeds:
  "map_of [(lit ''data'', Str [])] (lit ''data'') = Some (Str [])
   \<and> \<not> isArray (Str [])
   \<and> is_success (processArrayData loc (Obj [(lit ''data'', Str [])]))
   \<and> error (processArrayData loc (Obj [(lit ''data'', Str [])])) = None
   \<and> odd_numbers (processArrayData loc (Obj [(lit ''data'', Str [])])) = []
   \<and> even_numbers (processArrayData loc (Obj [(lit ''data'', Str [])])) = []
   \<and> alphabets (processArrayData loc (Obj [(lit ''data'', Str [])])) = []
   \<and> special_characters (processArrayData loc (Obj [(lit ''data'', Str [])])) = []
   \<and> sum_field (processArrayData loc (Obj [(lit ''data'', Str [])])) = lit ''0''"
  by (simp add: processArrayData_def tryBlock_def orEmptyArray_def sortBy_def
      numberToString_small decimal_0)

section \<open>The letters\<close>


lemma letters_filter: "list_all matchesLetter (filter matchesLetter strs)"
  by (simp add: list_all_iff)





text \<open>
  C9: the letter sort is a valid total order. The comparator agrees with the linear
  order of the case and the collation key; sorting the \<^verbatim>\<open>alphabets\<close> output again
  gives the same sequence; and two inputs whose letter tokens form the same multiset
  give the same \<^verbatim>\<open>alphabets\<close> and the same \<^verbatim>\<open>concat_string\<close>, whatever the order of the
  input. This holds under the collation of any locale.
\<close>

theorem letter_sort_idempotent_and_permutation_invariant:
  assumes "inputTokens x = Some strs" and "inputTokens y = Some strs'"
    and "mset (filter matchesLetter strs) = mset (filter matchesLetter strs')"
  shows "sortBy (sortCompare loc) (alphabets (processArrayData loc x))
        = alphabets (processArrayData loc x)
    \<and> alphabets (processArrayData loc x) = alphabets (processArrayData loc y)
    \<and> concat_string (processArrayData loc x) = concat_string (processArrayData loc y)
    \<and> (\<forall>a b. matchesLetter a \<and> matchesLetter b \<longrightarrow>
          (sortCompare loc a b < 0) = (localeKey loc a < localeKey loc b)
          \<and> (0 < sortCompare loc a b) = (localeKey loc b < localeKey loc a))"
proof -
  let ?ls = "filter matchesLetter strs" and ?ls' = "filter matchesLetter strs'"
  let ?K = "localeKey loc"
  have x: "alphabets (processArrayData loc x) = sort_key ?K ?ls"
    using assms(1) by (simp add: processArrayData_tokens sortBy_localeKey letters_filter)
  have y: "alphabets (processArrayData loc y) = sort_key ?K ?ls'"
    using assms(2) by (simp add: processArrayData_tokens sortBy_localeKey letters_filter)
  have "list_all matchesLetter (sort_key ?K ?ls)"
    by (simp add: list_all_iff)
  then have "sortBy (sortCompare loc) (sort_key ?K ?ls) = sort_key ?K (sort_key ?K ?ls)"
    by (rule sortBy_localeKey)
  also have "\<dots> = sort_key ?K ?ls"
    by (simp add: sort_key_id_if_sorted)
  finally have idem: "sortBy (sortCompare loc) (alphabets (processArrayData loc x))
      = alphabets (processArrayData loc x)"
    by (simp add: x)
  have "sort_key ?K ?ls' = sort_key ?K ?ls"
    using localeKey_inj letters_filter
    by (rule sorted_letters_unique) (use assms(3) in simp_all)
  then have same: "alphabets (processArrayData loc x) = alphabets (processArrayData loc y)"
    by (simp add: x y)
  have cx: "concat_string (processArrayData loc x) = concat (alphabets (processArrayData loc x))"
    using assms(1) by (simp add: processArrayData_tokens)
  have cy: "concat_string (processArrayData loc y) = concat (alphabets (processArrayData loc y))"
    using assms(2) by (simp add: processArrayData_tokens)
  show ?thesis
    using idem same cx cy by (simp add: sortCompare_letters sortCompare_letters_pos)
qed

theorem letter_sort_idempotent_and_permutation_invariant_witness:
  "inputTokens (request [''b'', ''7'', ''A'', ''a'']) = Some (map lit [''b'', ''7'', ''A'', ''a''])
   \<and> inputTokens (request [''a'', ''A'', ''?'', ''b'']) = Some (map lit [''a'', ''A'', ''?'', ''b''])
   \<and> mset (filter matchesLetter (map lit [''b'', ''7'', ''A'', ''a'']))
       = mset (filter matchesLetter (map lit [''a'', ''A'', ''?'', ''b'']))
   \<and> alphabets (processArrayData rootCollation (request [''b'', ''7'', ''A'', ''a'']))
       = alphabets (processArrayData rootCollation (request [''a'', ''A'', ''?'', ''b'']))
   \<and> concat_string (processArrayData rootCollation (request [''b'', ''7'', ''A'', ''a'']))
       = concat_string (processArrayData rootCollation (request [''a'', ''A'', ''?'', ''b'']))
   \<and> sortBy (sortCompare rootCollation)
         (alphabets (processArrayData rootCollation (request [''b'', ''7'', ''A'', ''a''])))
       = alphabets (processArrayData rootCollation (request [''b'', ''7'', ''A'', ''a'']))"
proof -
  have x: "inputTokens (request [''b'', ''7'', ''A'', ''a'']) = Some (map lit [''b'', ''7'', ''A'', ''a''])"
    by (simp add: inputTokens_request js_eval)
  have y: "inputTokens (request [''a'', ''A'', ''?'', ''b'']) = Some (map lit [''a'', ''A'', ''?'', ''b''])"
    by (simp add: inputTokens_request js_eval)
  have m: "mset (filter matchesLetter (map lit [''b'', ''7'', ''A'', ''a'']))
       = mset (filter matchesLetter (map lit [''a'', ''A'', ''?'', ''b'']))"
    by (simp add: js_eval)
  show ?thesis
    using letter_sort_idempotent_and_permutation_invariant [OF x y m, of rootCollation] x y m
    by blast
qed

section \<open>The numbers\<close>

lemma numbers_exact:
  assumes "exactSum strs < 2 ^ 53"
  shows "map parseInt (filter matchesDigits strs) = map Fin (numericValues strs)"
  using assms by (simp add: exactSum_def numericValues_def map_parseInt_exact)

lemma sum_field_exact:
  assumes "inputTokens x = Some strs" and "exactSum strs < 2 ^ 53"
  shows "sum_field (processArrayData loc x) = decimal (exactSum strs)"
proof -
  have "foldl add (Fin 0) (map Fin (numericValues strs)) = Fin (0 + sum_list (numericValues strs))"
    using assms(2) by (intro foldl_add_exact) (simp add: exactSum_def)
  then show ?thesis
    using assms by (simp add: processArrayData_tokens numbers_exact exactSum_def numberToString_small)
qed

lemma value_1e16: "digitsValue (lit ''10000000000000000'') = 10000000000000000"
  by (simp add: digitsValue_def lit_def)

lemma value_1: "digitsValue (lit ''1'') = 1"
  by (simp add: digitsValue_def lit_def)

lemma round_1e16: "roundDouble 10000000000000000 = Fin 10000000000000000"
  by (simp add: roundDouble_def bitlen.simps Let_def)

lemma round_1e16_plus_1: "roundDouble 10000000000000001 = Fin 10000000000000000"
  by (simp add: roundDouble_def bitlen.simps Let_def)

lemma toString_1e16: "numberToString (Fin 10000000000000000) = lit ''10000000000000000''"
  by (simp add: numberToString.simps candidates_def numDigits_def decimal.simps roundDouble_def
      bitlen.simps Let_def upt_rec renderDigits_def distance_def lit_def)

lemma parseInt_1e16: "parseInt (lit ''10000000000000000'') = Fin 10000000000000000"
  unfolding parseInt_def value_1e16 by (rule round_1e16)

lemma parseInt_1: "parseInt (lit ''1'') = Fin 1"
  unfolding parseInt_def value_1 by (simp add: roundDouble_def)

text \<open>
  C6, as the code has it: whenever the exact sum of the integer values of the numeric
  tokens is below \<open>2^53\<close>, the \<^verbatim>\<open>sum\<close> field is the decimal string of that exact sum, in
  minimal form, with no overflow and no loss of precision; it is \<^verbatim>\<open>"0"\<close> when there
  are no numeric tokens.
\<close>

theorem sum_is_exact_below_2_53:
  assumes "inputTokens x = Some strs" and "exactSum strs < 2 ^ 53"
  shows "sum_field (processArrayData loc x) = decimal (exactSum strs)
    \<and> minimalDecimal (sum_field (processArrayData loc x))
    \<and> digitsValue (sum_field (processArrayData loc x)) = exactSum strs
    \<and> (filter matchesDigits strs = [] \<longrightarrow> sum_field (processArrayData loc x) = lit ''0'')"
  using sum_field_exact [OF assms]
  by (auto simp: minimalDecimal_decimal digitsValue_decimal exactSum_def numericValues_def decimal_0)


theorem sum_is_exact_below_2_53_witness:
  "inputTokens (request [''a'', ''1'', ''23'', ''$'', ''B''])
     = Some [lit ''a'', lit ''1'', lit ''23'', lit ''$'', lit ''B'']
   \<and> exactSum [lit ''a'', lit ''1'', lit ''23'', lit ''$'', lit ''B''] = 24
   \<and> (24 :: nat) < 2 ^ 53
   \<and> sum_field (processArrayData rootCollation (request [''a'', ''1'', ''23'', ''$'', ''B''])) = lit ''24''"
proof -
  have x: "inputTokens (request [''a'', ''1'', ''23'', ''$'', ''B''])
     = Some [lit ''a'', lit ''1'', lit ''23'', lit ''$'', lit ''B'']"
    by (simp add: inputTokens_request js_eval)
  have s: "exactSum [lit ''a'', lit ''1'', lit ''23'', lit ''$'', lit ''B''] = 24"
    by (simp add: exactSum_def numericValues_def digitsValue_def js_eval)
  have d: "decimal 24 = lit ''24''"
    by (simp add: decimal.simps lit_def)
  have b: "exactSum [lit ''a'', lit ''1'', lit ''23'', lit ''$'', lit ''B''] < 2 ^ 53"
    unfolding s by simp
  from sum_is_exact_below_2_53 [OF x b] show ?thesis
    unfolding s d using x by simp
qed

text \<open>
  C6 as stated fails: the exact sum of \<^verbatim>\<open>"10000000000000000"\<close> and \<^verbatim>\<open>"1"\<close> is
  \<open>10000000000000001\<close>, which is not a double; the \<^verbatim>\<open>sum\<close> field is
  \<^verbatim>\<open>"10000000000000000"\<close>.
\<close>

theorem sum_loses_precision_counterexample:
  "inputTokens (request [''10000000000000000'', ''1''])
       = Some [lit ''10000000000000000'', lit ''1'']
   \<and> sum_field (processArrayData rootCollation (request [''10000000000000000'', ''1'']))
       = lit ''10000000000000000''
   \<and> decimal (exactSum [lit ''10000000000000000'', lit ''1'']) = lit ''10000000000000001''"
proof -
  have x: "inputTokens (request [''10000000000000000'', ''1''])
       = Some [lit ''10000000000000000'', lit ''1'']"
    by (simp add: inputTokens_request js_eval)
  have d: "filter matchesDigits [lit ''10000000000000000'', lit ''1'']
     = [lit ''10000000000000000'', lit ''1'']"
    by (simp add: js_eval)
  have f: "foldl add (Fin 0) [Fin 10000000000000000, Fin 1] = Fin 10000000000000000"
    by (simp add: round_1e16 round_1e16_plus_1)
  have s: "sum_field (processArrayData rootCollation (request [''10000000000000000'', ''1'']))
       = lit ''10000000000000000''"
    unfolding processArrayData_tokens(7) [OF x] d list.map parseInt_1e16 parseInt_1 f
    by (rule toString_1e16)
  have "exactSum [lit ''10000000000000000'', lit ''1''] = 10000000000000001"
    unfolding exactSum_def numericValues_def d list.map value_1e16 value_1 by simp
  then have e: "decimal (exactSum [lit ''10000000000000000'', lit ''1'']) = lit ''10000000000000001''"
    by (simp add: decimal.simps lit_def)
  show ?thesis using x s e by blast
qed


section \<open>The partition\<close>

lemma odd_even_exact:
  assumes "inputTokens x = Some strs" and "exactSum strs < 2 ^ 53"
  shows "odd_numbers (processArrayData loc x) = map decimal (filter odd (numericValues strs))"
    and "even_numbers (processArrayData loc x) = map decimal (filter even (numericValues strs))"
proof -
  have small: "v < 2 ^ 53" if "v \<in> set (numericValues strs)" for v
  proof -
    have "v \<le> sum_list (numericValues strs)"
      using that by (simp add: member_le_sum_list)
    with assms(2) show ?thesis by (simp add: exactSum_def)
  qed
  have render: "map numberToString (map Fin vs) = map decimal vs"
    if "set vs \<subseteq> set (numericValues strs)" for vs
    using that small by (auto simp: numberToString_small)
  have ro: "map numberToString (map Fin (filter odd (numericValues strs)))
      = map decimal (filter odd (numericValues strs))"
    by (rule render) auto
  have re: "map numberToString (map Fin (filter even (numericValues strs)))
      = map decimal (filter even (numericValues strs))"
    by (rule render) auto
  show "odd_numbers (processArrayData loc x) = map decimal (filter odd (numericValues strs))"
    unfolding processArrayData_tokens(3) [OF assms(1)] numbers_exact [OF assms(2)]
      filter_nonzero_Fin by (rule ro)
  show "even_numbers (processArrayData loc x) = map decimal (filter even (numericValues strs))"
    unfolding processArrayData_tokens(4) [OF assms(1)] numbers_exact [OF assms(2)]
      filter_zero_Fin by (rule re)
qed

lemma categories_exclusive:
  "s \<noteq> [] \<Longrightarrow>
     (matchesDigits s \<and> \<not> matchesLetter s \<and> \<not> isSpecial s)
   \<or> (\<not> matchesDigits s \<and> matchesLetter s \<and> \<not> isSpecial s)
   \<or> (\<not> matchesDigits s \<and> \<not> matchesLetter s \<and> isSpecial s)"
  using digits_not_letter [of s] by (auto simp: isSpecial_def)

lemma mset_three_way:
  "mset (filter (\<lambda>s. s \<noteq> []) strs)
     = mset (filter matchesDigits strs) + mset (filter matchesLetter strs)
       + mset (filter isSpecial strs)"
proof (induction strs)
  case Nil
  then show ?case by simp
next
  case (Cons s strs)
  have "s = [] \<Longrightarrow> \<not> matchesDigits s \<and> \<not> matchesLetter s \<and> \<not> isSpecial s"
    by (simp add: matchesDigits_def matchesLetter_def isSpecial_def)
  with Cons categories_exclusive [of s] show ?case
    by (cases "s = []") auto
qed

lemma odd_even_partition:
  "mset (map f (filter remainderIsNonZero ns)) + mset (map f (filter remainderIsZero ns))
     = mset (map f ns)"
  by (induction ns) (auto simp: remainder_partition)

lemma value_23: "digitsValue (lit ''23'') = 23"
  by (simp add: digitsValue_def lit_def)

lemma decimal_small:
  "decimal 1 = lit ''1''" "decimal 7 = lit ''7''" "decimal 23 = lit ''23''"
  "decimal 24 = lit ''24''" "decimal 15 = lit ''15''" "decimal (Suc 0) = lit ''1''"
  by (simp_all add: decimal.simps lit_def)

text \<open>
  C4, as the code has it: on a success result, every non-empty trimmed token is in
  exactly one of the numeric, letter and special categories, and the output arrays
  hold them; \<^verbatim>\<open>odd_numbers\<close> and \<^verbatim>\<open>even_numbers\<close> together are, as multisets, the
  rendered numeric tokens, each list in first-seen order; and, whenever the exact sum of
  the numeric tokens is below \<open>2^53\<close>, the integer sum of the odd values plus the integer
  sum of the even values is the value of the \<^verbatim>\<open>sum\<close> field.
\<close>

theorem partition_invariants:
  assumes "inputTokens x = Some strs"
  shows "(\<forall>s \<in> set strs. s \<noteq> [] \<longrightarrow>
            (matchesDigits s \<and> \<not> matchesLetter s \<and> \<not> isSpecial s)
          \<or> (\<not> matchesDigits s \<and> matchesLetter s \<and> \<not> isSpecial s)
          \<or> (\<not> matchesDigits s \<and> \<not> matchesLetter s \<and> isSpecial s))
    \<and> mset (filter (\<lambda>s. s \<noteq> []) strs)
        = mset (filter matchesDigits strs) + mset (alphabets (processArrayData loc x))
          + mset (special_characters (processArrayData loc x))
    \<and> mset (odd_numbers (processArrayData loc x)) + mset (even_numbers (processArrayData loc x))
        = mset (map (\<lambda>s. numberToString (parseInt s)) (filter matchesDigits strs))
    \<and> odd_numbers (processArrayData loc x)
        = map (\<lambda>s. numberToString (parseInt s))
            (filter (\<lambda>s. remainderIsNonZero (parseInt s)) (filter matchesDigits strs))
    \<and> even_numbers (processArrayData loc x)
        = map (\<lambda>s. numberToString (parseInt s))
            (filter (\<lambda>s. remainderIsZero (parseInt s)) (filter matchesDigits strs))
    \<and> special_characters (processArrayData loc x) = filter isSpecial strs
    \<and> (exactSum strs < 2 ^ 53 \<longrightarrow>
          odd_numbers (processArrayData loc x) = map decimal (filter odd (numericValues strs))
        \<and> even_numbers (processArrayData loc x) = map decimal (filter even (numericValues strs))
        \<and> sum_list (map digitsValue (odd_numbers (processArrayData loc x)))
            + sum_list (map digitsValue (even_numbers (processArrayData loc x)))
            = digitsValue (sum_field (processArrayData loc x)))"
proof -
  let ?r = "processArrayData loc x" and ?ns = "map parseInt (filter matchesDigits strs)"
  have c1: "\<forall>s \<in> set strs. s \<noteq> [] \<longrightarrow>
            (matchesDigits s \<and> \<not> matchesLetter s \<and> \<not> isSpecial s)
          \<or> (\<not> matchesDigits s \<and> matchesLetter s \<and> \<not> isSpecial s)
          \<or> (\<not> matchesDigits s \<and> \<not> matchesLetter s \<and> isSpecial s)"
    using categories_exclusive by blast
  have c2: "mset (filter (\<lambda>s. s \<noteq> []) strs)
        = mset (filter matchesDigits strs) + mset (alphabets ?r) + mset (special_characters ?r)"
    using assms by (simp add: processArrayData_tokens mset_sortBy mset_three_way del: mset_filter)
  have "map (\<lambda>s. numberToString (parseInt s)) (filter matchesDigits strs)
      = map numberToString ?ns"
    by simp
  then have c3: "mset (odd_numbers ?r) + mset (even_numbers ?r)
        = mset (map (\<lambda>s. numberToString (parseInt s)) (filter matchesDigits strs))"
    unfolding processArrayData_tokens(3,4) [OF assms] by (simp only: odd_even_partition)
  have c4: "odd_numbers ?r = map (\<lambda>s. numberToString (parseInt s))
            (filter (\<lambda>s. remainderIsNonZero (parseInt s)) (filter matchesDigits strs))"
    using assms by (simp add: processArrayData_tokens filter_map comp_def)
  have c5: "even_numbers ?r = map (\<lambda>s. numberToString (parseInt s))
            (filter (\<lambda>s. remainderIsZero (parseInt s)) (filter matchesDigits strs))"
    using assms by (simp add: processArrayData_tokens filter_map comp_def)
  have c6: "special_characters ?r = filter isSpecial strs"
    using assms by (simp add: processArrayData_tokens)
  have c7: "odd_numbers ?r = map decimal (filter odd (numericValues strs))
        \<and> even_numbers ?r = map decimal (filter even (numericValues strs))
        \<and> sum_list (map digitsValue (odd_numbers ?r)) + sum_list (map digitsValue (even_numbers ?r))
            = digitsValue (sum_field ?r)"
    if b: "exactSum strs < 2 ^ 53"
  proof -
    have id: "map digitsValue (map decimal vs) = vs" for vs
      by (simp add: comp_def digitsValue_decimal)
    show ?thesis
      unfolding odd_even_exact [OF assms b] sum_field_exact [OF assms b] id digitsValue_decimal
      by (simp add: sum_list_parity exactSum_def)
  qed
  show ?thesis
    using c1 c2 c3 c4 c5 c6 c7 by blast
qed


theorem partition_invariants_witness:
  "inputTokens (request [''a'', ''1'', ''23'', ''$'', ''B''])
     = Some [lit ''a'', lit ''1'', lit ''23'', lit ''$'', lit ''B'']
   \<and> exactSum [lit ''a'', lit ''1'', lit ''23'', lit ''$'', lit ''B''] < 2 ^ 53
   \<and> matchesLetter (lit ''a'') \<and> matchesDigits (lit ''1'') \<and> isSpecial (lit ''$'')
   \<and> odd_numbers (processArrayData rootCollation (request [''a'', ''1'', ''23'', ''$'', ''B'']))
       = [lit ''1'', lit ''23'']
   \<and> even_numbers (processArrayData rootCollation (request [''a'', ''1'', ''23'', ''$'', ''B''])) = []
   \<and> special_characters (processArrayData rootCollation (request [''a'', ''1'', ''23'', ''$'', ''B'']))
       = [lit ''$'']
   \<and> sum_list (map digitsValue
         (odd_numbers (processArrayData rootCollation (request [''a'', ''1'', ''23'', ''$'', ''B'']))))
       + sum_list (map digitsValue
         (even_numbers (processArrayData rootCollation (request [''a'', ''1'', ''23'', ''$'', ''B'']))))
       = digitsValue (sum_field (processArrayData rootCollation (request [''a'', ''1'', ''23'', ''$'', ''B''])))"
proof -
  let ?T = "[lit ''a'', lit ''1'', lit ''23'', lit ''$'', lit ''B'']"
  have x: "inputTokens (request [''a'', ''1'', ''23'', ''$'', ''B'']) = Some ?T"
    by (simp add: inputTokens_request js_eval)
  have v: "numericValues ?T = [1, 23]"
    by (simp add: numericValues_def digitsValue_def js_eval)
  have b: "exactSum ?T < 2 ^ 53"
    unfolding exactSum_def v by simp
  have c: "matchesLetter (lit ''a'') \<and> matchesDigits (lit ''1'') \<and> isSpecial (lit ''$'')"
    by (simp add: js_eval)
  have sp: "filter isSpecial ?T = [lit ''$'']"
    by (simp add: js_eval)
  have o: "map decimal (filter odd (numericValues ?T)) = [lit ''1'', lit ''23'']"
    and e: "map decimal (filter even (numericValues ?T)) = []"
    unfolding v by (simp_all add: decimal_small)
  from partition_invariants [OF x] b
  have "odd_numbers (processArrayData rootCollation (request [''a'', ''1'', ''23'', ''$'', ''B'']))
          = map decimal (filter odd (numericValues ?T))"
    and "even_numbers (processArrayData rootCollation (request [''a'', ''1'', ''23'', ''$'', ''B'']))
          = map decimal (filter even (numericValues ?T))"
    and "special_characters (processArrayData rootCollation (request [''a'', ''1'', ''23'', ''$'', ''B'']))
          = filter isSpecial ?T"
    and "sum_list (map digitsValue
         (odd_numbers (processArrayData rootCollation (request [''a'', ''1'', ''23'', ''$'', ''B'']))))
       + sum_list (map digitsValue
         (even_numbers (processArrayData rootCollation (request [''a'', ''1'', ''23'', ''$'', ''B'']))))
       = digitsValue (sum_field (processArrayData rootCollation (request [''a'', ''1'', ''23'', ''$'', ''B''])))"
    by blast+
  then show ?thesis
    unfolding o e sp using x b c by blast
qed

text \<open>
  C4 as stated fails: for \<^verbatim>\<open>"1"\<close> and \<^verbatim>\<open>"10000000000000000"\<close> the odd values sum to
  \<open>1\<close>, the even values to \<open>10000000000000000\<close>, and the \<^verbatim>\<open>sum\<close> field is
  \<^verbatim>\<open>"10000000000000000"\<close>.
\<close>

theorem partition_sum_counterexample:
  "inputTokens (request [''1'', ''10000000000000000''])
     = Some [lit ''1'', lit ''10000000000000000'']
   \<and> odd_numbers (processArrayData rootCollation (request [''1'', ''10000000000000000''])) = [lit ''1'']
   \<and> even_numbers (processArrayData rootCollation (request [''1'', ''10000000000000000'']))
       = [lit ''10000000000000000'']
   \<and> sum_field (processArrayData rootCollation (request [''1'', ''10000000000000000'']))
       = lit ''10000000000000000''
   \<and> sum_list (map digitsValue [lit ''1'']) + sum_list (map digitsValue [lit ''10000000000000000''])
       = 10000000000000001
   \<and> digitsValue (lit ''10000000000000000'') = 10000000000000000"
proof -
  have x: "inputTokens (request [''1'', ''10000000000000000''])
     = Some [lit ''1'', lit ''10000000000000000'']"
    by (simp add: inputTokens_request js_eval)
  have d: "filter matchesDigits [lit ''1'', lit ''10000000000000000'']
     = [lit ''1'', lit ''10000000000000000'']"
    by (simp add: js_eval)
  have n: "map parseInt [lit ''1'', lit ''10000000000000000''] = [Fin 1, Fin 10000000000000000]"
    by (simp add: parseInt_1 parseInt_1e16)
  have f: "foldl add (Fin 0) [Fin 1, Fin 10000000000000000] = Fin 10000000000000000"
    by (simp add: roundDouble_small round_1e16_plus_1)
  have o: "filter remainderIsNonZero [Fin 1, Fin 10000000000000000] = [Fin 1]"
    and e: "filter remainderIsZero [Fin 1, Fin 10000000000000000] = [Fin 10000000000000000]"
    by simp_all
  have r1: "numberToString (Fin 1) = lit ''1''"
    by (simp add: numberToString_small decimal_small)
  have "odd_numbers (processArrayData rootCollation (request [''1'', ''10000000000000000''])) = [lit ''1'']"
    unfolding processArrayData_tokens(3) [OF x] d n o by (simp only: list.map r1)
  moreover have "even_numbers (processArrayData rootCollation (request [''1'', ''10000000000000000'']))
       = [lit ''10000000000000000'']"
    unfolding processArrayData_tokens(4) [OF x] d n e by (simp only: list.map toString_1e16)
  moreover have "sum_field (processArrayData rootCollation (request [''1'', ''10000000000000000'']))
       = lit ''10000000000000000''"
    unfolding processArrayData_tokens(7) [OF x] d n f by (rule toString_1e16)
  moreover have "sum_list (map digitsValue [lit ''1''])
       + sum_list (map digitsValue [lit ''10000000000000000'']) = 10000000000000001"
    by (simp add: value_1 value_1e16)
  ultimately show ?thesis
    using x value_1e16 by blast
qed


section \<open>Rendering of the numeric tokens\<close>














section \<open>Server and client\<close>

lemma catchBlock_fields:
  "\<not> is_success (catchBlock e)" "error (catchBlock e) = Some (message e)"
  "odd_numbers (catchBlock e) = []" "even_numbers (catchBlock e) = []"
  "alphabets (catchBlock e) = []" "special_characters (catchBlock e) = []"
  "sum_field (catchBlock e) = lit ''0''" "concat_string (catchBlock e) = []"
  by (simp_all add: catchBlock_def)




text \<open>
  C3, as the code has it: the server-side \<^verbatim>\<open>processArrayData\<close> is total. For every
  input it returns a tagged result: either a success with no error field, or the
  failure result carrying the message of what was thrown, with all arrays empty, sum
  \<^verbatim>\<open>"0"\<close> and empty concatenation. The client-side copy returns a result exactly on
  the inputs for which the server succeeds, and throws on the others.
\<close>

theorem server_total_client_partial:
  "((is_success (processArrayData loc x) \<and> error (processArrayData loc x) = None
       \<and> tryBlock loc x = Inr (processArrayData loc x))
    \<or> (\<not> is_success (processArrayData loc x)
       \<and> (\<exists>e. tryBlock loc x = Inl e \<and> error (processArrayData loc x) = Some (message e))
       \<and> odd_numbers (processArrayData loc x) = []
       \<and> even_numbers (processArrayData loc x) = []
       \<and> alphabets (processArrayData loc x) = []
       \<and> special_characters (processArrayData loc x) = []
       \<and> sum_field (processArrayData loc x) = lit ''0''
       \<and> concat_string (processArrayData loc x) = []))
   \<and> ((\<exists>r. processArrayClientSide loc x = Inr r) = is_success (processArrayData loc x))"
proof (cases "inputTokens x")
  case None
  obtain e where c: "processArrayClientSide loc x = Inl e"
    using client_no_tokens [OF None] by blast
  obtain e' where t: "tryBlock loc x = Inl e'"
    using tryBlock_no_tokens [OF None] by blast
  show ?thesis
    by (simp add: processArrayData_def t c catchBlock_fields)
next
  case (Some strs)
  show ?thesis
    by (simp add: client_tokens [OF Some] tryBlock_tokens [OF Some] processArrayData_def)
qed

theorem server_total_client_partial_witness:
  "\<not> is_success (processArrayData rootCollation Null)
   \<and> error (processArrayData rootCollation Null) = Some (lit ''Cannot read properties of null (reading 'data')'')
   \<and> sum_field (processArrayData rootCollation Null) = lit ''0''
   \<and> (\<nexists>r. processArrayClientSide rootCollation Null = Inr r)"
proof -
  have t: "tryBlock rootCollation Null = Inl (TypeError (lit ''Cannot read properties of null (reading 'data')''))"
    by (simp add: tryBlock_def)
  then have n: "\<not> is_success (processArrayData rootCollation Null)"
    by (simp add: processArrayData_def catchBlock_fields)
  with server_total_client_partial [of rootCollation Null] t show ?thesis
    by auto
qed

text \<open>
  C3 as stated fails for the client-side copy: a \<^verbatim>\<open>data\<close> field that is a non-empty
  string makes it throw.
\<close>

theorem client_not_total_counterexample:
  "processArrayClientSide rootCollation (Obj [(lit ''data'', Str (lit ''abc''))])
     = Inl (TypeError (lit ''data.forEach is not a function''))"
  by (simp add: processArrayClientSide_def orEmptyArray_def lit_def)


end
